theory Spec2Isabelle
  imports Main "HOL-Library.Product_Lexorder"
begin

section \<open>The Minesweeper reasoning engine of minesweeper.py\<close>

text \<open>
  A cell is a pair of Python integers (row, column). A Python set of cells is a HOL set;
  Python sets are finite, which the theorems below state as a hypothesis wherever the
  length of a set or an iteration over it is involved.

  A method call is modelled by a function of the object before the call. A method that
  returns nothing gives the object after the call; the queries \<open>known_mines\<close>,
  \<open>known_safes\<close> and \<open>make_safe_move\<close> give the value they return together with
  the object after the call.

  Where the source iterates over a set, the model iterates over the sorted list of its
  members; lemmas below show that the order does not change the outcome.
\<close>

type_synonym cell = "int \<times> int"

subsection \<open>class Minesweeper: the board\<close>

record minesweeper =
  ms_height :: int
  ms_width :: int
  board :: "bool list list"

text \<open>
  The test \<open>self.board[i][j]\<close>, which the source makes only at indices it has checked
  to be in bounds, on a board of \<open>height\<close> rows with \<open>width\<close> entries each.
\<close>

definition board_at :: "minesweeper \<Rightarrow> cell \<Rightarrow> bool" where
  "board_at g c = (board g ! nat (fst c) ! nat (snd c))"

text \<open>\<open>Minesweeper.nearby_mines\<close>: the loops over the 3 by 3 block around the cell.\<close>

definition nearby_mines :: "minesweeper \<Rightarrow> cell \<Rightarrow> int" where
  "nearby_mines g cell =
     int (length (filter
       (\<lambda>c. c \<noteq> cell \<and> 0 \<le> fst c \<and> fst c < ms_height g \<and> 0 \<le> snd c \<and> snd c < ms_width g
            \<and> board_at g c)
       (List.product [fst cell - 1 .. fst cell + 1] [snd cell - 1 .. snd cell + 1])))"

subsection \<open>class Sentence\<close>

record sentence =
  cells :: "cell set"
  count :: int

text \<open>\<open>Sentence.__init__\<close> copies the cells into a set of its own.\<close>

definition Sentence :: "cell set \<Rightarrow> int \<Rightarrow> sentence" where
  "Sentence cs n = \<lparr>cells = cs, count = n\<rparr>"

definition known_mines :: "sentence \<Rightarrow> cell set \<times> sentence" where
  "known_mines s = (if count s = int (card (cells s)) then cells s else {}, s)"

definition known_safes :: "sentence \<Rightarrow> cell set \<times> sentence" where
  "known_safes s = (if count s = 0 then cells s else {}, s)"

text \<open>\<open>Sentence.mark_mine\<close> and \<open>Sentence.mark_safe\<close>.\<close>

definition sentence_mark_mine :: "cell \<Rightarrow> sentence \<Rightarrow> sentence" where
  "sentence_mark_mine cell s =
     (if cell \<in> cells s then s\<lparr>cells := cells s - {cell}, count := count s - 1\<rparr> else s)"

definition sentence_mark_safe :: "cell \<Rightarrow> sentence \<Rightarrow> sentence" where
  "sentence_mark_safe cell s =
     (if cell \<in> cells s then s\<lparr>cells := cells s - {cell}\<rparr> else s)"

subsection \<open>class MinesweeperAI\<close>

record minesweeper_ai =
  height :: int
  width :: int
  moves_made :: "cell set"
  mines :: "cell set"
  safes :: "cell set"
  knowledge :: "sentence list"

text \<open>\<open>MinesweeperAI.__init__\<close>.\<close>

definition MinesweeperAI :: "int \<Rightarrow> int \<Rightarrow> minesweeper_ai" where
  "MinesweeperAI h w =
     \<lparr>height = h, width = w, moves_made = {}, mines = {}, safes = {}, knowledge = []\<rparr>"

definition mark_mine :: "cell \<Rightarrow> minesweeper_ai \<Rightarrow> minesweeper_ai" where
  "mark_mine cell a =
     a\<lparr>mines := insert cell (mines a),
       knowledge := map (sentence_mark_mine cell) (knowledge a)\<rparr>"

definition mark_safe :: "cell \<Rightarrow> minesweeper_ai \<Rightarrow> minesweeper_ai" where
  "mark_safe cell a =
     a\<lparr>safes := insert cell (safes a),
       knowledge := map (sentence_mark_safe cell) (knowledge a)\<rparr>"

text \<open>
  The local function \<open>update_knowledge\<close> of \<open>add_knowledge\<close>. It first reads the known
  mines and safes of every sentence of the list it is given, and only then marks them, so
  the list is passed by value.
\<close>

definition update_knowledge :: "sentence list \<Rightarrow> minesweeper_ai \<Rightarrow> bool \<times> minesweeper_ai" where
  "update_knowledge sentence_list a =
     (let unmarked_mines = fold (\<lambda>s acc. acc \<union> fst (known_mines s)) sentence_list {};
          unmarked_safes = fold (\<lambda>s acc. acc \<union> fst (known_safes s)) sentence_list {}
      in if card unmarked_mines + card unmarked_safes = 0 then (False, a)
         else
           let a1 = a\<lparr>mines := mines a \<union> unmarked_mines, safes := safes a \<union> unmarked_safes\<rparr>;
               a2 = fold mark_mine (sorted_list_of_set unmarked_mines) a1;
               a3 = fold mark_safe (sorted_list_of_set unmarked_safes) a2
           in (True, a3))"

text \<open>\<open>itertools.permutations(xs, 2)\<close>: the pairs of entries at two different positions.\<close>

definition permutations2 :: "'a list \<Rightarrow> ('a \<times> 'a) list" where
  "permutations2 xs =
     concat (map (\<lambda>i. map (\<lambda>j. (xs ! i, xs ! j)) (filter (\<lambda>j. j \<noteq> i) [0..<length xs]))
                 [0..<length xs])"

text \<open>The subset method: the list \<open>new_sentences\<close> built from the sentence pairs.\<close>

definition new_sentences :: "sentence list \<Rightarrow> sentence list" where
  "new_sentences k =
     map (\<lambda>(left, right). Sentence (cells right - cells left) (count right - count left))
         (filter (\<lambda>(left, right). cells left \<subset> cells right) (permutations2 k))"

text \<open>
  The \<open>while True\<close> loop of \<open>add_knowledge\<close>. A run that never leaves the loop has the
  value \<open>None\<close>.
\<close>

partial_function (option) knowledge_loop :: "minesweeper_ai \<Rightarrow> minesweeper_ai option" where
  "knowledge_loop a =
     (case update_knowledge (knowledge a) a of
        (is_changes_made, a1) \<Rightarrow>
          if \<not> is_changes_made then Some a1
          else
            let new = new_sentences (knowledge a1);
                a2 = a1\<lparr>knowledge := knowledge a1 @ new\<rparr>
            in case update_knowledge new a2 of
                 (is_changes_made, a3) \<Rightarrow>
                   if \<not> is_changes_made then Some a3 else knowledge_loop a3)"

text \<open>The neighbours of a cell that lie on the board, the cell itself included.\<close>

definition adjacent_cells :: "minesweeper_ai \<Rightarrow> cell \<Rightarrow> cell set" where
  "adjacent_cells a cell =
     set (filter (\<lambda>c. 0 \<le> fst c \<and> fst c < height a \<and> 0 \<le> snd c \<and> snd c < width a)
           (List.product [fst cell - 1 .. fst cell + 1] [snd cell - 1 .. snd cell + 1]))"

text \<open>Steps 1 to 3 of \<open>add_knowledge\<close>, up to the appended sentence.\<close>

definition add_sentence :: "cell \<Rightarrow> int \<Rightarrow> minesweeper_ai \<Rightarrow> minesweeper_ai" where
  "add_sentence cell n a =
     (let a1 = a\<lparr>moves_made := insert cell (moves_made a)\<rparr>;
          a2 = a1\<lparr>safes := insert cell (safes a1),
                  knowledge := map (sentence_mark_safe cell) (knowledge a1)\<rparr>;
          unclicked_adjacent_cells = (adjacent_cells a2 cell - {cell}) - moves_made a2
      in a2\<lparr>knowledge := knowledge a2 @ [Sentence unclicked_adjacent_cells n]\<rparr>)"

definition add_knowledge :: "cell \<Rightarrow> int \<Rightarrow> minesweeper_ai \<Rightarrow> minesweeper_ai option" where
  "add_knowledge cell n a = knowledge_loop (add_sentence cell n a)"

text \<open>
  \<open>make_safe_move\<close>. Which member \<open>next(iter(possible_set))\<close> yields depends on the
  iteration order of Python sets; the parameter \<open>first\<close> stands for it: \<open>first S\<close> is
  the member of \<open>S\<close> that the iterator yields first.
\<close>

definition make_safe_move ::
  "(cell set \<Rightarrow> cell) \<Rightarrow> minesweeper_ai \<Rightarrow> cell option \<times> minesweeper_ai" where
  "make_safe_move first a =
     (let possible_set = safes a - moves_made a
      in (if card possible_set > 0 then Some (first possible_set) else None, a))"

text \<open>
  \<open>make_random_move\<close>. \<open>random.sample(population, 1)\<close> raises ValueError when the
  population has fewer than one member (Python up to 3.10, which still accepts a set as
  population); otherwise it returns a list of one member, picked at the position the random
  generator draws, here the parameter \<open>r\<close>.
\<close>

datatype error = ValueError

definition random_sample1 :: "nat \<Rightarrow> cell set \<Rightarrow> error + cell list" where
  "random_sample1 r population =
     (if card population < 1 then Inl ValueError
      else Inr [sorted_list_of_set population ! (r mod card population)])"

definition make_random_move :: "nat \<Rightarrow> minesweeper_ai \<Rightarrow> error + cell" where
  "make_random_move r a =
     (let possible_set =
            set (List.product [0 .. height a - 1] [0 .. width a - 1]) - moves_made a - mines a
      in case random_sample1 r possible_set of
           Inl e \<Rightarrow> Inl e
         | Inr xs \<Rightarrow> Inr (xs ! 0))"

declare knowledge_loop.simps [code]

subsection \<open>The caller: a game played against a board\<close>

text \<open>
  The caller of \<open>add_knowledge\<close> reveals a cell and passes the count that
  \<open>Minesweeper.nearby_mines\<close> gives for it. \<open>play\<close> does so for a list of cells in turn.
\<close>

fun play :: "minesweeper \<Rightarrow> cell list \<Rightarrow> minesweeper_ai \<Rightarrow> minesweeper_ai option" where
  "play g [] a = Some a"
| "play g (c # cs) a =
     (case add_knowledge c (nearby_mines g c) a of
        None \<Rightarrow> None
      | Some a' \<Rightarrow> play g cs a')"


text \<open>The cell is on the board and the board has a mine there.\<close>

definition mine_at :: "minesweeper \<Rightarrow> cell \<Rightarrow> bool" where
  "mine_at g c =
     (0 \<le> fst c \<and> fst c < ms_height g \<and> 0 \<le> snd c \<and> snd c < ms_width g \<and> board_at g c)"


subsection \<open>Notions used in the proofs\<close>

text \<open>
  The cells still occurring in a list of sentences; the fact that every sentence of the
  knowledge base holds finitely many cells; a sentence after the mines \<open>ms\<close> and then
  the safe cells \<open>ss\<close> have been marked in it; the mines and safes that one scan of
  \<open>update_knowledge\<close> collects.
\<close>

definition all_cells :: "sentence list \<Rightarrow> cell set" where
  "all_cells k = \<Union> (cells ` set k)"

definition finite_kb :: "minesweeper_ai \<Rightarrow> bool" where
  "finite_kb a = list_all (\<lambda>s. finite (cells s)) (knowledge a)"

definition marked :: "cell set \<Rightarrow> cell set \<Rightarrow> sentence \<Rightarrow> sentence" where
  "marked ms ss s = s\<lparr>cells := cells s - ms - ss, count := count s - int (card (cells s \<inter> ms))\<rparr>"

definition found_mines :: "sentence list \<Rightarrow> cell set" where
  "found_mines sl = \<Union> ((\<lambda>s. fst (known_mines s)) ` set sl)"

definition found_safes :: "sentence list \<Rightarrow> cell set" where
  "found_safes sl = \<Union> ((\<lambda>s. fst (known_safes s)) ` set sl)"


text \<open>
  A sentence is sound for a board when its count is the number of its cells that are
  mines; a knowledge base is sound when its sentences are, every known mine is a mine,
  no known safe cell is one, and every move made is known to be safe.
\<close>

definition sound_sentence :: "minesweeper \<Rightarrow> sentence \<Rightarrow> bool" where
  "sound_sentence g s = (finite (cells s) \<and> count s = int (card {c \<in> cells s. mine_at g c}))"

definition sound :: "minesweeper \<Rightarrow> minesweeper_ai \<Rightarrow> bool" where
  "sound g a =
     (list_all (sound_sentence g) (knowledge a)
      \<and> mines a \<subseteq> Collect (mine_at g) \<and> safes a \<inter> Collect (mine_at g) = {}
      \<and> moves_made a \<subseteq> safes a \<and> height a = ms_height g \<and> width a = ms_width g)"



section \<open>Marking a list of cells\<close>

lemma fold_sentence_mark_mine:
  "fold sentence_mark_mine xs s =
     s\<lparr>cells := cells s - set xs, count := count s - int (card (cells s \<inter> set xs))\<rparr>"
proof (induction xs arbitrary: s)
  case Nil
  then show ?case by simp
next
  case (Cons x xs)
  let ?t = "sentence_mark_mine x s"
  have step: "fold sentence_mark_mine (x # xs) s =
      ?t\<lparr>cells := cells ?t - set xs, count := count ?t - int (card (cells ?t \<inter> set xs))\<rparr>"
    using Cons.IH [of ?t] by simp
  show ?case
  proof (cases "x \<in> cells s")
    case True
    have eq: "cells s \<inter> insert x (set xs) = insert x ((cells s - {x}) \<inter> set xs)"
      using True by auto
    have "card (cells s \<inter> insert x (set xs)) = Suc (card ((cells s - {x}) \<inter> set xs))"
      unfolding eq by (rule card_insert_disjoint) auto
    moreover have "cells s - {x} - set xs = cells s - insert x (set xs)" by auto
    moreover have "?t = s\<lparr>cells := cells s - {x}, count := count s - 1\<rparr>"
      using True by (simp add: sentence_mark_mine_def)
    ultimately show ?thesis
      unfolding step by simp
  next
    case False
    then have "cells s \<inter> insert x (set xs) = cells s \<inter> set xs"
      and "cells s - insert x (set xs) = cells s - set xs" by auto
    moreover have "?t = s"
      using False by (simp add: sentence_mark_mine_def)
    ultimately show ?thesis
      unfolding step by simp
  qed
qed

lemma fold_sentence_mark_safe:
  "fold sentence_mark_safe xs s = s\<lparr>cells := cells s - set xs\<rparr>"
proof (induction xs arbitrary: s)
  case Nil
  then show ?case by simp
next
  case (Cons x xs)
  let ?t = "sentence_mark_safe x s"
  have step: "fold sentence_mark_safe (x # xs) s = ?t\<lparr>cells := cells ?t - set xs\<rparr>"
    using Cons.IH [of ?t] by simp
  have "cells s - {x} - set xs = cells s - insert x (set xs)" by auto
  moreover have "x \<notin> cells s \<Longrightarrow> cells s - insert x (set xs) = cells s - set xs" by auto
  moreover have "?t = (if x \<in> cells s then s\<lparr>cells := cells s - {x}\<rparr> else s)"
    by (simp add: sentence_mark_safe_def)
  ultimately show ?case
    unfolding step by simp
qed

lemma fold_mark_mine:
  "fold mark_mine xs a =
     a\<lparr>mines := mines a \<union> set xs, knowledge := map (fold sentence_mark_mine xs) (knowledge a)\<rparr>"
proof (induction xs arbitrary: a)
  case Nil
  then show ?case by simp
next
  case (Cons x xs)
  let ?b = "mark_mine x a"
  have step: "fold mark_mine (x # xs) a =
      ?b\<lparr>mines := mines ?b \<union> set xs, knowledge := map (fold sentence_mark_mine xs) (knowledge ?b)\<rparr>"
    using Cons.IH [of ?b] by simp
  have "insert x (mines a) \<union> set xs = mines a \<union> insert x (set xs)" by auto
  moreover have "?b = a\<lparr>mines := insert x (mines a),
       knowledge := map (sentence_mark_mine x) (knowledge a)\<rparr>"
    by (simp add: mark_mine_def)
  ultimately show ?case
    unfolding step by (simp add: comp_def)
qed

lemma fold_mark_safe:
  "fold mark_safe xs a =
     a\<lparr>safes := safes a \<union> set xs, knowledge := map (fold sentence_mark_safe xs) (knowledge a)\<rparr>"
proof (induction xs arbitrary: a)
  case Nil
  then show ?case by simp
next
  case (Cons x xs)
  let ?b = "mark_safe x a"
  have step: "fold mark_safe (x # xs) a =
      ?b\<lparr>safes := safes ?b \<union> set xs, knowledge := map (fold sentence_mark_safe xs) (knowledge ?b)\<rparr>"
    using Cons.IH [of ?b] by simp
  have "insert x (safes a) \<union> set xs = safes a \<union> insert x (set xs)" by auto
  moreover have "?b = a\<lparr>safes := insert x (safes a),
       knowledge := map (sentence_mark_safe x) (knowledge a)\<rparr>"
    by (simp add: mark_safe_def)
  ultimately show ?case
    unfolding step by (simp add: comp_def)
qed

lemma fold_union_acc:
  "fold (\<lambda>s acc. acc \<union> f s) sl A = A \<union> \<Union> (f ` set sl)"
  by (induction sl arbitrary: A) auto



section \<open>One scan of the knowledge and the subset method\<close>

lemma found_mines_subset: "found_mines sl \<subseteq> all_cells sl"
  by (auto simp add: found_mines_def all_cells_def known_mines_def split: if_splits)

lemma found_safes_subset: "found_safes sl \<subseteq> all_cells sl"
  by (auto simp add: found_safes_def all_cells_def known_safes_def split: if_splits)

lemma finite_all_cells: "list_all (\<lambda>s. finite (cells s)) sl \<Longrightarrow> finite (all_cells sl)"
  by (simp add: all_cells_def list_all_iff)

lemma update_knowledge_eq:
  assumes "list_all (\<lambda>s. finite (cells s)) sl"
  shows "update_knowledge sl a =
     (if found_mines sl = {} \<and> found_safes sl = {} then (False, a)
      else (True, a\<lparr>mines := mines a \<union> found_mines sl, safes := safes a \<union> found_safes sl,
                     knowledge := map (marked (found_mines sl) (found_safes sl)) (knowledge a)\<rparr>))"
proof -
  have fm: "finite (found_mines sl)"
    using finite_all_cells [OF assms] found_mines_subset by (rule finite_subset [rotated])
  have fs: "finite (found_safes sl)"
    using finite_all_cells [OF assms] found_safes_subset by (rule finite_subset [rotated])
  have um: "fold (\<lambda>s acc. acc \<union> fst (known_mines s)) sl {} = found_mines sl"
    by (simp add: fold_union_acc found_mines_def)
  have us: "fold (\<lambda>s acc. acc \<union> fst (known_safes s)) sl {} = found_safes sl"
    by (simp add: fold_union_acc found_safes_def)
  have zero: "card (found_mines sl) + card (found_safes sl) = 0
      \<longleftrightarrow> found_mines sl = {} \<and> found_safes sl = {}"
    using fm fs by simp
  have mk: "fold sentence_mark_safe (sorted_list_of_set (found_safes sl))
        (fold sentence_mark_mine (sorted_list_of_set (found_mines sl)) s)
      = marked (found_mines sl) (found_safes sl) s" for s
    using fm fs by (simp add: fold_sentence_mark_mine fold_sentence_mark_safe marked_def)
  show ?thesis
    unfolding update_knowledge_def um us Let_def zero
    using fm fs by (simp add: fold_mark_mine fold_mark_safe mk comp_def)
qed


lemma all_cells_marked: "all_cells (map (marked ms ss) k) = all_cells k - ms - ss"
  by (auto simp add: all_cells_def marked_def)

lemma finite_marked:
  "list_all (\<lambda>s. finite (cells s)) k \<Longrightarrow> list_all (\<lambda>s. finite (cells s)) (map (marked ms ss) k)"
  by (simp add: list_all_iff marked_def)

lemma permutations2_members:
  assumes "(l, r) \<in> set (permutations2 k)"
  shows "l \<in> set k \<and> r \<in> set k"
proof -
  from assms obtain i j where "i < length k" "j < length k" "l = k ! i" "r = k ! j"
    unfolding permutations2_def by auto
  then show ?thesis by simp
qed

lemma new_sentences_members:
  assumes "s \<in> set (new_sentences k)"
  obtains l r where "l \<in> set k" and "r \<in> set k" and "cells l \<subset> cells r"
    and "s = Sentence (cells r - cells l) (count r - count l)"
proof -
  from assms obtain p where p: "p \<in> set (permutations2 k)" "cells (fst p) \<subset> cells (snd p)"
    "s = Sentence (cells (snd p) - cells (fst p)) (count (snd p) - count (fst p))"
    unfolding new_sentences_def by (auto simp add: split_beta)
  from p(1) have "fst p \<in> set k" and "snd p \<in> set k"
    using permutations2_members [of "fst p" "snd p" k] by simp_all
  then show thesis
    using p(2,3) by (rule that)
qed

lemma new_sentences_cells:
  assumes "s \<in> set (new_sentences k)"
  shows "\<exists>r \<in> set k. cells s \<subseteq> cells r"
proof -
  from assms obtain l r where
    "l \<in> set k" and r: "r \<in> set k" and "cells l \<subset> cells r"
    and s: "s = Sentence (cells r - cells l) (count r - count l)"
    by (rule new_sentences_members)
  from s have "cells s \<subseteq> cells r" by (simp add: Sentence_def)
  with r show ?thesis ..
qed

lemma all_cells_new_sentences: "all_cells (new_sentences k) \<subseteq> all_cells k"
proof
  fix c assume "c \<in> all_cells (new_sentences k)"
  then obtain s where s: "s \<in> set (new_sentences k)" "c \<in> cells s"
    by (auto simp add: all_cells_def)
  from new_sentences_cells [OF s(1)] s(2) show "c \<in> all_cells k"
    by (auto simp add: all_cells_def)
qed

lemma finite_new_sentences:
  assumes "list_all (\<lambda>s. finite (cells s)) k"
  shows "list_all (\<lambda>s. finite (cells s)) (new_sentences k)"
  unfolding list_all_iff
proof
  fix s assume "s \<in> set (new_sentences k)"
  from new_sentences_cells [OF this] obtain r where "r \<in> set k" "cells s \<subseteq> cells r" ..
  moreover from assms \<open>r \<in> set k\<close> have "finite (cells r)" by (simp add: list_all_iff)
  ultimately show "finite (cells s)" by (blast intro: finite_subset)
qed

lemma all_cells_append: "all_cells (k @ k') = all_cells k \<union> all_cells k'"
  by (auto simp add: all_cells_def)

lemma all_cells_mono: "set sl \<subseteq> set k \<Longrightarrow> all_cells sl \<subseteq> all_cells k"
  by (auto simp add: all_cells_def)

text \<open>What one call of update_knowledge does to the cells still in sentences.\<close>

lemma update_knowledge_finite:
  assumes "list_all (\<lambda>s. finite (cells s)) sl" and "finite_kb a"
  shows "finite_kb (snd (update_knowledge sl a))"
  using assms(2) by (simp add: update_knowledge_eq [OF assms(1)] finite_kb_def finite_marked)

lemma update_knowledge_cells_subset:
  assumes "list_all (\<lambda>s. finite (cells s)) sl"
  shows "all_cells (knowledge (snd (update_knowledge sl a))) \<subseteq> all_cells (knowledge a)"
  by (auto simp add: update_knowledge_eq [OF assms] all_cells_marked)

lemma update_knowledge_cells_less:
  assumes "list_all (\<lambda>s. finite (cells s)) sl" and "set sl \<subseteq> set (knowledge a)"
    and "fst (update_knowledge sl a)"
  shows "all_cells (knowledge (snd (update_knowledge sl a))) \<subset> all_cells (knowledge a)"
proof -
  from assms(3) have ne: "found_mines sl \<union> found_safes sl \<noteq> {}"
    by (auto simp add: update_knowledge_eq [OF assms(1)] split: if_splits)
  have "found_mines sl \<union> found_safes sl \<subseteq> all_cells (knowledge a)"
    using found_mines_subset [of sl] found_safes_subset [of sl] all_cells_mono [OF assms(2)]
    by blast
  with ne assms(3) show ?thesis
    by (auto simp add: update_knowledge_eq [OF assms(1)] all_cells_marked split: if_splits)
qed


lemma knowledge_loop_rule:
  assumes "finite_kb a" and "I a"
    and step1: "\<And>b. finite_kb b \<Longrightarrow> I b \<Longrightarrow> I (snd (update_knowledge (knowledge b) b))"
    and step2: "\<And>b. finite_kb b \<Longrightarrow> I b \<Longrightarrow>
       I (snd (update_knowledge (new_sentences (knowledge b))
                 (b\<lparr>knowledge := knowledge b @ new_sentences (knowledge b)\<rparr>)))"
  shows "\<exists>a'. knowledge_loop a = Some a' \<and> finite_kb a' \<and> I a'"
  using assms(1,2)
proof (induction "card (all_cells (knowledge a))" arbitrary: a rule: less_induct)
  case less
  let ?u1 = "update_knowledge (knowledge a) a"
  let ?a1 = "snd ?u1"
  let ?new = "new_sentences (knowledge ?a1)"
  let ?a2 = "?a1\<lparr>knowledge := knowledge ?a1 @ ?new\<rparr>"
  let ?u2 = "update_knowledge ?new ?a2"
  let ?a3 = "snd ?u2"
  have fk: "list_all (\<lambda>s. finite (cells s)) (knowledge a)"
    using less.prems(1) by (simp add: finite_kb_def)
  have f1: "finite_kb ?a1"
    using fk less.prems(1) by (rule update_knowledge_finite)
  have i1: "I ?a1"
    using less.prems by (rule step1)
  have fk1: "list_all (\<lambda>s. finite (cells s)) (knowledge ?a1)"
    using f1 by (simp add: finite_kb_def)
  have fnew: "list_all (\<lambda>s. finite (cells s)) ?new"
    using fk1 by (rule finite_new_sentences)
  have f2: "finite_kb ?a2"
    using fk1 fnew by (simp add: finite_kb_def)
  have f3: "finite_kb ?a3"
    using fnew f2 by (rule update_knowledge_finite)
  have i3: "I ?a3"
    using f1 i1 by (rule step2)
  have unfold: "knowledge_loop a =
      (if \<not> fst ?u1 then Some ?a1 else if \<not> fst ?u2 then Some ?a3 else knowledge_loop ?a3)"
    by (subst knowledge_loop.simps) (simp add: Let_def split_beta)
  show ?case
  proof (cases "fst ?u1 \<and> fst ?u2")
    case False
    then show ?thesis
      using f1 i1 f3 i3 unfold by auto
  next
    case True
    have "all_cells (knowledge ?a3) \<subseteq> all_cells (knowledge ?a2)"
      using fnew by (rule update_knowledge_cells_subset)
    also have "all_cells (knowledge ?a2) = all_cells (knowledge ?a1)"
      using all_cells_new_sentences [of "knowledge ?a1"] by (auto simp add: all_cells_append)
    also have "all_cells (knowledge ?a1) \<subset> all_cells (knowledge a)"
      using fk _ True [THEN conjunct1] by (rule update_knowledge_cells_less) simp
    finally have "card (all_cells (knowledge ?a3)) < card (all_cells (knowledge a))"
      using finite_all_cells [OF fk] by (simp add: psubset_card_mono)
    from less.hyps [OF this f3 i3] True unfold show ?thesis
      by simp
  qed
qed



section \<open>Soundness of the inference\<close>

lemma known_mines_sound:
  assumes "sound_sentence g s"
  shows "fst (known_mines s) \<subseteq> Collect (mine_at g)"
proof (cases "count s = int (card (cells s))")
  case True
  from assms have fin: "finite (cells s)"
    and "count s = int (card {c \<in> cells s. mine_at g c})"
    by (simp_all add: sound_sentence_def)
  with True have "card {c \<in> cells s. mine_at g c} = card (cells s)" by simp
  with fin have "{c \<in> cells s. mine_at g c} = cells s"
    by (intro card_subset_eq) auto
  then show ?thesis
    by (auto simp add: known_mines_def)
next
  case False
  then show ?thesis by (simp add: known_mines_def)
qed

lemma known_safes_sound:
  assumes "sound_sentence g s"
  shows "fst (known_safes s) \<inter> Collect (mine_at g) = {}"
proof (cases "count s = 0")
  case True
  with assms have "finite {c \<in> cells s. mine_at g c}" and "card {c \<in> cells s. mine_at g c} = 0"
    by (simp_all add: sound_sentence_def)
  then have "{c \<in> cells s. mine_at g c} = {}" by simp
  then show ?thesis
    by (auto simp add: known_safes_def)
next
  case False
  then show ?thesis by (simp add: known_safes_def)
qed

lemma found_mines_sound:
  "list_all (sound_sentence g) sl \<Longrightarrow> found_mines sl \<subseteq> Collect (mine_at g)"
  using known_mines_sound by (fastforce simp add: found_mines_def list_all_iff)

lemma found_safes_sound:
  "list_all (sound_sentence g) sl \<Longrightarrow> found_safes sl \<inter> Collect (mine_at g) = {}"
  using known_safes_sound by (fastforce simp add: found_safes_def list_all_iff)

lemma marked_sound:
  assumes "sound_sentence g s" and ms: "ms \<subseteq> Collect (mine_at g)"
    and ss: "ss \<inter> Collect (mine_at g) = {}"
  shows "sound_sentence g (marked ms ss s)"
proof -
  from assms(1) have fin: "finite (cells s)"
    and cnt: "count s = int (card {c \<in> cells s. mine_at g c})"
    by (simp_all add: sound_sentence_def)
  have sub: "cells s \<inter> ms \<subseteq> {c \<in> cells s. mine_at g c}"
    using ms by auto
  have "{c \<in> cells s - ms - ss. mine_at g c} = {c \<in> cells s. mine_at g c} - cells s \<inter> ms"
    using ss by auto
  then have "card {c \<in> cells s - ms - ss. mine_at g c}
      = card {c \<in> cells s. mine_at g c} - card (cells s \<inter> ms)"
    using fin sub by (simp add: card_Diff_subset)
  moreover have "card (cells s \<inter> ms) \<le> card {c \<in> cells s. mine_at g c}"
    using fin sub by (simp add: card_mono)
  ultimately show ?thesis
    using fin cnt by (simp add: sound_sentence_def marked_def)
qed

lemma new_sentences_sound:
  assumes "list_all (sound_sentence g) k"
  shows "list_all (sound_sentence g) (new_sentences k)"
  unfolding list_all_iff
proof
  fix s assume "s \<in> set (new_sentences k)"
  then obtain l r where l: "l \<in> set k" and r: "r \<in> set k" and lr: "cells l \<subset> cells r"
    and s: "s = Sentence (cells r - cells l) (count r - count l)"
    by (rule new_sentences_members)
  from assms l r have sl: "sound_sentence g l" and sr: "sound_sentence g r"
    by (simp_all add: list_all_iff)
  from sr have fin: "finite (cells r)" by (simp add: sound_sentence_def)
  have sub: "{c \<in> cells l. mine_at g c} \<subseteq> {c \<in> cells r. mine_at g c}"
    using lr by auto
  have "{c \<in> cells r - cells l. mine_at g c}
      = {c \<in> cells r. mine_at g c} - {c \<in> cells l. mine_at g c}"
    by auto
  then have "card {c \<in> cells r - cells l. mine_at g c}
      = card {c \<in> cells r. mine_at g c} - card {c \<in> cells l. mine_at g c}"
    using fin sub by (simp add: card_Diff_subset finite_subset)
  moreover have "card {c \<in> cells l. mine_at g c} \<le> card {c \<in> cells r. mine_at g c}"
    using fin sub by (simp add: card_mono)
  ultimately show "sound_sentence g s"
    using sl sr fin by (simp add: s sound_sentence_def Sentence_def)
qed

lemma sound_finite: "list_all (sound_sentence g) sl \<Longrightarrow> list_all (\<lambda>s. finite (cells s)) sl"
  by (simp add: list_all_iff sound_sentence_def)

lemma update_knowledge_sound:
  assumes sl: "list_all (sound_sentence g) sl" and a: "sound g a"
  shows "sound g (snd (update_knowledge sl a))"
    and "mines a \<subseteq> mines (snd (update_knowledge sl a))"
    and "safes a \<subseteq> safes (snd (update_knowledge sl a))"
proof -
  note eq = update_knowledge_eq [OF sound_finite [OF sl]]
  note fm = found_mines_sound [OF sl] and fs = found_safes_sound [OF sl]
  have "list_all (sound_sentence g) (map (marked (found_mines sl) (found_safes sl)) (knowledge a))"
    using a marked_sound [OF _ fm fs] by (simp add: sound_def list_all_iff)
  with a fm fs show "sound g (snd (update_knowledge sl a))"
    by (auto simp add: eq sound_def)
  show "mines a \<subseteq> mines (snd (update_knowledge sl a))"
    and "safes a \<subseteq> safes (snd (update_knowledge sl a))"
    by (auto simp add: eq)
qed


lemma sentence_mark_safe_sound:
  assumes "sound_sentence g s" and "\<not> mine_at g c"
  shows "sound_sentence g (sentence_mark_safe c s)"
proof -
  have "{x \<in> cells s - {c}. mine_at g x} = {x \<in> cells s. mine_at g x}"
    using assms(2) by auto
  with assms(1) show ?thesis
    by (simp add: sound_sentence_def sentence_mark_safe_def)
qed

lemma nearby_mines_card:
  "nearby_mines g c =
     int (card {x \<in> set (List.product [fst c - 1 .. fst c + 1] [snd c - 1 .. snd c + 1]).
                 x \<noteq> c \<and> mine_at g x})"
proof -
  let ?xs = "List.product [fst c - 1 .. fst c + 1] [snd c - 1 .. snd c + 1]"
  let ?P = "\<lambda>x. x \<noteq> c \<and> mine_at g x"
  have "distinct ?xs"
    by (simp add: distinct_product)
  then have "distinct (filter ?P ?xs)"
    by (rule distinct_filter)
  then have "card (set (filter ?P ?xs)) = length (filter ?P ?xs)"
    by (rule distinct_card)
  moreover have "set (filter ?P ?xs) = {x \<in> set ?xs. ?P x}"
    by (rule set_filter)
  moreover have "nearby_mines g c = int (length (filter ?P ?xs))"
    by (simp add: nearby_mines_def mine_at_def)
  ultimately show ?thesis
    by (simp only:)
qed

lemma add_sentence_sound:
  assumes a: "sound g a" and c: "\<not> mine_at g c"
  shows "sound g (add_sentence c (nearby_mines g c) a)"
    and "mines (add_sentence c (nearby_mines g c) a) = mines a"
    and "safes a \<subseteq> safes (add_sentence c (nearby_mines g c) a)"
proof -
  let ?xs = "List.product [fst c - 1 .. fst c + 1] [snd c - 1 .. snd c + 1]"
  let ?new = "Sentence (adjacent_cells a c - {c} - insert c (moves_made a)) (nearby_mines g c)"
  from a have dims: "height a = ms_height g" "width a = ms_width g"
    and mm: "moves_made a \<subseteq> safes a" and sf: "safes a \<inter> Collect (mine_at g) = {}"
    and ks: "list_all (sound_sentence g) (knowledge a)"
    and mi: "mines a \<subseteq> Collect (mine_at g)"
    by (simp_all add: sound_def)
  have "{x \<in> adjacent_cells a c - {c} - insert c (moves_made a). mine_at g x}
      = {x \<in> set ?xs. x \<noteq> c \<and> mine_at g x}"
    using mm sf dims by (auto simp add: adjacent_cells_def mine_at_def)
  then have new: "sound_sentence g ?new"
    by (simp add: sound_sentence_def Sentence_def nearby_mines_card adjacent_cells_def)
  have old: "list_all (sound_sentence g) (map (sentence_mark_safe c) (knowledge a))"
    using ks c by (simp add: list_all_iff sentence_mark_safe_sound)
  have k: "knowledge (add_sentence c (nearby_mines g c) a)
      = map (sentence_mark_safe c) (knowledge a) @ [?new]"
    by (simp add: add_sentence_def Let_def adjacent_cells_def)
  show "sound g (add_sentence c (nearby_mines g c) a)"
    unfolding sound_def k using new old mm sf dims mi c
    by (auto simp add: add_sentence_def Let_def)
  show "mines (add_sentence c (nearby_mines g c) a) = mines a"
    and "safes a \<subseteq> safes (add_sentence c (nearby_mines g c) a)"
    by (auto simp add: add_sentence_def Let_def)
qed

lemma add_knowledge_sound:
  assumes a: "sound g a" and c: "\<not> mine_at g c"
  shows "\<exists>a'. add_knowledge c (nearby_mines g c) a = Some a' \<and> sound g a'
            \<and> mines a \<subseteq> mines a' \<and> safes a \<subseteq> safes a'"
proof -
  let ?b = "add_sentence c (nearby_mines g c) a"
  let ?I = "\<lambda>x. sound g x \<and> mines a \<subseteq> mines x \<and> safes a \<subseteq> safes x"
  note b = add_sentence_sound [OF a c]
  from b(1) have "list_all (sound_sentence g) (knowledge ?b)"
    by (simp add: sound_def)
  then have "list_all (\<lambda>s. finite (cells s)) (knowledge ?b)"
    by (rule sound_finite)
  then have fin: "finite_kb ?b"
    by (simp add: finite_kb_def)
  have I: "?I ?b"
    using b by simp
  have "\<exists>a'. knowledge_loop ?b = Some a' \<and> finite_kb a' \<and> ?I a'"
    using fin I
  proof (rule knowledge_loop_rule)
    fix x assume x: "?I x"
    then have k: "list_all (sound_sentence g) (knowledge x)"
      by (simp add: sound_def)
    from update_knowledge_sound [OF k] x
    show "?I (snd (update_knowledge (knowledge x) x))"
      by blast
  next
    fix x assume x: "?I x"
    let ?y = "x\<lparr>knowledge := knowledge x @ new_sentences (knowledge x)\<rparr>"
    from x have k: "list_all (sound_sentence g) (knowledge x)"
      by (simp add: sound_def)
    then have n: "list_all (sound_sentence g) (new_sentences (knowledge x))"
      by (rule new_sentences_sound)
    from x k n have y: "sound g ?y"
      by (simp add: sound_def)
    from update_knowledge_sound [OF n y] x
    show "?I (snd (update_knowledge (new_sentences (knowledge x)) ?y))"
      by auto
  qed
  then show ?thesis
    by (auto simp add: add_knowledge_def)
qed

lemma play_sound:
  assumes "sound g a" and "\<forall>c \<in> set cs. \<not> mine_at g c"
  shows "\<exists>a'. play g cs a = Some a' \<and> sound g a' \<and> mines a \<subseteq> mines a' \<and> safes a \<subseteq> safes a'"
  using assms
proof (induction cs arbitrary: a)
  case Nil
  then show ?case by simp
next
  case (Cons c cs)
  from Cons.prems have "\<not> mine_at g c" by simp
  from add_knowledge_sound [OF Cons.prems(1) this] obtain b where
    b: "add_knowledge c (nearby_mines g c) a = Some b" "sound g b"
      "mines a \<subseteq> mines b" "safes a \<subseteq> safes b"
    by blast
  from Cons.prems have "\<forall>c \<in> set cs. \<not> mine_at g c" by simp
  from Cons.IH [OF b(2) this] obtain a' where
    "play g cs b = Some a'" "sound g a'" "mines b \<subseteq> mines a'" "safes b \<subseteq> safes a'"
    by blast
  with b show ?case
    by auto
qed

lemma play_append:
  "play g (cs @ cs') a = (case play g cs a of None \<Rightarrow> None | Some b \<Rightarrow> play g cs' b)"
  by (induction cs arbitrary: a) (auto split: option.splits)

lemma sound_init: "sound g (MinesweeperAI (ms_height g) (ms_width g))"
  by (simp add: sound_def MinesweeperAI_def)

lemma finite_kb_add_sentence: "finite_kb a \<Longrightarrow> finite_kb (add_sentence cell n a)"
  by (auto simp add: finite_kb_def add_sentence_def Let_def list_all_iff sentence_mark_safe_def
      Sentence_def adjacent_cells_def)


lemma finite_kb_init: "finite_kb (MinesweeperAI h w)"
  by (simp add: finite_kb_def MinesweeperAI_def)

lemma finite_kb_mark:
  "finite_kb a \<Longrightarrow> finite_kb (mark_mine c a)" "finite_kb a \<Longrightarrow> finite_kb (mark_safe c a)"
  by (auto simp add: finite_kb_def list_all_iff mark_mine_def mark_safe_def
      sentence_mark_mine_def sentence_mark_safe_def)

section \<open>The sentence operations\<close>

text \<open>
  C4. For every sentence: \<open>known_mines\<close> returns the cells when the count equals the
  number of cells and the empty set otherwise; \<open>known_safes\<close> returns the cells when the
  count is 0 and the empty set otherwise; after either call the sentence is as it was.
\<close>

theorem known_mines_known_safes_spec:
  "fst (known_mines s) = (if count s = int (card (cells s)) then cells s else {})
   \<and> fst (known_safes s) = (if count s = 0 then cells s else {})
   \<and> snd (known_mines s) = s \<and> snd (known_safes s) = s"
  by (simp add: known_mines_def known_safes_def)

text \<open>
  C5. For every sentence and cell: when the cell is among the cells, \<open>Sentence.mark_mine\<close>
  removes it and takes 1 from the count, and \<open>Sentence.mark_safe\<close> removes it and leaves
  the count; when it is not, both leave the sentence as it was.
\<close>

theorem sentence_mark_spec:
  "(c \<in> cells s \<longrightarrow>
      sentence_mark_mine c s = s\<lparr>cells := cells s - {c}, count := count s - 1\<rparr>
      \<and> sentence_mark_safe c s = s\<lparr>cells := cells s - {c}\<rparr>
      \<and> count (sentence_mark_safe c s) = count s)
   \<and> (c \<notin> cells s \<longrightarrow> sentence_mark_mine c s = s \<and> sentence_mark_safe c s = s)"
  by (simp add: sentence_mark_mine_def sentence_mark_safe_def)

theorem sentence_mark_spec_witness:
  "sentence_mark_mine (0, 1) (Sentence {(0, 0), (0, 1)} 1) = Sentence {(0, 0)} 0
   \<and> sentence_mark_safe (0, 1) (Sentence {(0, 0), (0, 1)} 1) = Sentence {(0, 0)} 1
   \<and> sentence_mark_mine (1, 1) (Sentence {(0, 0), (0, 1)} 1) = Sentence {(0, 0), (0, 1)} 1
   \<and> sentence_mark_safe (1, 1) (Sentence {(0, 0), (0, 1)} 1) = Sentence {(0, 0), (0, 1)} 1"
proof -
  have "(0, 1) \<in> cells (Sentence {(0, 0), (0, 1)} 1)"
    and "(1, 1) \<notin> cells (Sentence {(0, 0), (0, 1)} 1)"
    by (simp_all add: Sentence_def)
  then show ?thesis
    using sentence_mark_spec [of "(0, 1)" "Sentence {(0, 0), (0, 1)} 1"]
      sentence_mark_spec [of "(1, 1)" "Sentence {(0, 0), (0, 1)} 1"]
    by (auto simp add: Sentence_def)
qed

text \<open>
  C6. Marking is idempotent, on a sentence and on the knowledge base: marking the same
  cell a second time as a mine (or a second time as safe) gives the state that marking it
  once gives.
\<close>

theorem mark_idempotent:
  "sentence_mark_mine c (sentence_mark_mine c s) = sentence_mark_mine c s
   \<and> sentence_mark_safe c (sentence_mark_safe c s) = sentence_mark_safe c s
   \<and> mark_mine c (mark_mine c a) = mark_mine c a
   \<and> mark_safe c (mark_safe c a) = mark_safe c a"
  by (simp add: sentence_mark_mine_def sentence_mark_safe_def mark_mine_def mark_safe_def)

section \<open>The moves\<close>

text \<open>
  C9. \<open>make_safe_move\<close> leaves the knowledge base as it was; when safes - moves_made is
  not empty it returns a member of that set, so never a move already made; otherwise it
  returns None; a second call right after the first returns the same result. The sets are
  finite and \<open>first\<close> yields a member of every finite set that is not empty, as the
  iterator of a Python set does.
\<close>

theorem make_safe_move_spec:
  assumes "finite (safes a)"
    and "\<And>S. finite S \<Longrightarrow> S \<noteq> {} \<Longrightarrow> first S \<in> S"
  shows "snd (make_safe_move first a) = a
    \<and> (safes a - moves_made a \<noteq> {} \<longrightarrow>
         (\<exists>c. fst (make_safe_move first a) = Some c \<and> c \<in> safes a - moves_made a
              \<and> c \<notin> moves_made a))
    \<and> (safes a - moves_made a = {} \<longrightarrow> fst (make_safe_move first a) = None)
    \<and> fst (make_safe_move first (snd (make_safe_move first a))) = fst (make_safe_move first a)"
proof -
  have fin: "finite (safes a - moves_made a)"
    using assms(1) by simp
  show ?thesis
  proof (cases "safes a - moves_made a = {}")
    case True
    then have "card (safes a - moves_made a) = 0"
      by (simp only: card.empty)
    with True show ?thesis
      by (simp add: make_safe_move_def Let_def)
  next
    case False
    with fin have "0 < card (safes a - moves_made a)"
      by (simp add: card_gt_0_iff)
    moreover from assms(2) [OF fin False]
    have "first (safes a - moves_made a) \<in> safes a - moves_made a" .
    ultimately show ?thesis
      using False by (simp add: make_safe_move_def Let_def)
  qed
qed

theorem make_safe_move_spec_witness:
  "fst (make_safe_move Min
          \<lparr>height = 2, width = 2, moves_made = {(1, 1)}, mines = {},
           safes = {(0, 1), (1, 1)}, knowledge = []\<rparr>) = Some (0, 1)
   \<and> snd (make_safe_move Min
          \<lparr>height = 2, width = 2, moves_made = {(1, 1)}, mines = {},
           safes = {(0, 1), (1, 1)}, knowledge = []\<rparr>) =
          \<lparr>height = 2, width = 2, moves_made = {(1, 1)}, mines = {},
           safes = {(0, 1), (1, 1)}, knowledge = []\<rparr>
   \<and> fst (make_safe_move Min
          \<lparr>height = 2, width = 2, moves_made = {(1, 1)}, mines = {},
           safes = {(1, 1)}, knowledge = []\<rparr>) = None"
proof -
  let ?a = "\<lparr>height = 2, width = 2, moves_made = {(1, 1)}, mines = {},
           safes = {(0, 1), (1, 1)}, knowledge = []\<rparr> :: minesweeper_ai"
  let ?b = "\<lparr>height = 2, width = 2, moves_made = {(1, 1)}, mines = {},
           safes = {(1, 1)}, knowledge = []\<rparr> :: minesweeper_ai"
  have da: "safes ?a - moves_made ?a = {(0, 1)}" by auto
  have db: "safes ?b - moves_made ?b = {}" by auto
  have fa: "finite (safes ?a)" and fb: "finite (safes ?b)"
    by simp_all
  have m: "\<And>S :: cell set. finite S \<Longrightarrow> S \<noteq> {} \<Longrightarrow> Min S \<in> S"
    by (rule Min_in)
  from make_safe_move_spec [of ?a Min, OF fa m] make_safe_move_spec [of ?b Min, OF fb m] da db
  show ?thesis by auto
qed


text \<open>
  C1. The claim asks for an explicit empty result when no candidate is left. The source
  has no such branch: whenever the board cells without the moves made and the known mines
  are the empty set, \<open>random.sample\<close> raises ValueError, whatever the random draw.
\<close>

theorem make_random_move_empty_pool:
  assumes "set (List.product [0 .. height a - 1] [0 .. width a - 1]) - moves_made a - mines a = {}"
  shows "make_random_move r a = Inl ValueError"
proof -
  from assms
  have "card (set (List.product [0 .. height a - 1] [0 .. width a - 1]) - moves_made a - mines a) = 0"
    by (simp only: card.empty)
  then show ?thesis
    by (simp add: make_random_move_def random_sample1_def)
qed

theorem make_random_move_empty_pool_witness:
  "add_knowledge (0, 0) 0 (MinesweeperAI 1 1) =
     Some \<lparr>height = 1, width = 1, moves_made = {(0, 0)}, mines = {}, safes = {(0, 0)},
           knowledge = [Sentence {} 0]\<rparr>
   \<and> make_random_move 0
       \<lparr>height = 1, width = 1, moves_made = {(0, 0)}, mines = {}, safes = {(0, 0)},
        knowledge = [Sentence {} 0]\<rparr> = Inl ValueError"
proof -
  let ?a = "\<lparr>height = 1, width = 1, moves_made = {(0, 0)}, mines = {}, safes = {(0, 0)},
            knowledge = [Sentence {} 0]\<rparr>"
  have r: "add_knowledge (0, 0) 0 (MinesweeperAI 1 1) = Some ?a"
    by code_simp
  have e: "set (List.product [0 .. height ?a - 1] [0 .. width ?a - 1])
             - moves_made ?a - mines ?a = {}"
    by simp
  from r make_random_move_empty_pool [OF e, of 0] show ?thesis
    by (rule conjI)
qed

section \<open>add_knowledge\<close>

text \<open>
  C8. \<open>add_knowledge\<close> returns: from every knowledge base whose sentences hold finitely
  many cells, as all Python sets do, the loop is left after finitely many rounds, for every
  cell and count and every board size, and the knowledge base it leaves is again such a
  one. Each round that goes on takes at least one cell out of all sentences, and no round
  brings a cell back.
\<close>

theorem add_knowledge_terminates:
  assumes "finite_kb a"
  shows "\<exists>a'. add_knowledge cell n a = Some a' \<and> finite_kb a'"
proof -
  from assms have "finite_kb (add_sentence cell n a)"
    by (rule finite_kb_add_sentence)
  then have "\<exists>a'. knowledge_loop (add_sentence cell n a) = Some a' \<and> finite_kb a' \<and> True"
    by (rule knowledge_loop_rule) simp_all
  then show ?thesis
    by (simp add: add_knowledge_def)
qed

theorem add_knowledge_terminates_witness:
  "finite_kb (MinesweeperAI 2 2)
   \<and> (\<exists>a'. add_knowledge (1, 1) 1 (MinesweeperAI 2 2) = Some a' \<and> finite_kb a')"
proof -
  have "finite_kb (MinesweeperAI 2 2)"
    by (simp add: finite_kb_def MinesweeperAI_def)
  with add_knowledge_terminates [of "MinesweeperAI 2 2" "(1, 1)" 1] show ?thesis
    by simp
qed


text \<open>
  C7. On a board \<open>g\<close>, let the cells \<open>cs\<close> and then the cells \<open>cs'\<close> be revealed, each
  with the count \<open>nearby_mines\<close> gives and none of them a mine (a revealed cell is safe;
  a cell may even be revealed twice). Every call returns, the mines and safes known after
  \<open>cs\<close> are still known after \<open>cs'\<close>, and no cell is both a known mine and a known safe
  cell.
\<close>

theorem mines_safes_monotone_disjoint:
  assumes "\<forall>c \<in> set (cs @ cs'). \<not> mine_at g c"
  shows "\<exists>a1 a2. play g cs (MinesweeperAI (ms_height g) (ms_width g)) = Some a1
           \<and> play g (cs @ cs') (MinesweeperAI (ms_height g) (ms_width g)) = Some a2
           \<and> mines a1 \<subseteq> mines a2 \<and> safes a1 \<subseteq> safes a2
           \<and> mines a2 \<inter> safes a2 = {}"
proof -
  from assms have cs: "\<forall>c \<in> set cs. \<not> mine_at g c" and cs': "\<forall>c \<in> set cs'. \<not> mine_at g c"
    by simp_all
  from play_sound [OF sound_init cs] obtain a1 where
    a1: "play g cs (MinesweeperAI (ms_height g) (ms_width g)) = Some a1" "sound g a1"
    by blast
  from play_sound [OF a1(2) cs'] obtain a2 where
    a2: "play g cs' a1 = Some a2" "sound g a2" "mines a1 \<subseteq> mines a2" "safes a1 \<subseteq> safes a2"
    by blast
  from a2(2) have "mines a2 \<inter> safes a2 = {}"
    by (auto simp add: sound_def)
  with a1 a2 show ?thesis
    by (simp add: play_append)
qed

theorem mines_safes_monotone_disjoint_witness:
  "\<not> mine_at \<lparr>ms_height = 2, ms_width = 2, board = [[True, False], [False, False]]\<rparr> (1, 1)
   \<and> \<not> mine_at \<lparr>ms_height = 2, ms_width = 2, board = [[True, False], [False, False]]\<rparr> (0, 1)
   \<and> (\<exists>a1 a2.
        play \<lparr>ms_height = 2, ms_width = 2, board = [[True, False], [False, False]]\<rparr>
          [(1, 1)] (MinesweeperAI 2 2) = Some a1
        \<and> play \<lparr>ms_height = 2, ms_width = 2, board = [[True, False], [False, False]]\<rparr>
          [(1, 1), (0, 1)] (MinesweeperAI 2 2) = Some a2
        \<and> mines a1 \<subseteq> mines a2 \<and> safes a1 \<subseteq> safes a2 \<and> mines a2 \<inter> safes a2 = {})"
proof -
  let ?g = "\<lparr>ms_height = 2, ms_width = 2, board = [[True, False], [False, False]]\<rparr>"
  have m: "\<not> mine_at ?g (1, 1)" "\<not> mine_at ?g (0, 1)"
    by (simp_all add: mine_at_def board_at_def)
  then have "\<forall>c \<in> set ([(1, 1)] @ [(0, 1)]). \<not> mine_at ?g c"
    by simp
  from mines_safes_monotone_disjoint [OF this] m show ?thesis
    by simp
qed

text \<open>
  C10. The 2 by 2 board with its one mine at (0,0): the counts of (1,1) and (0,1) are 1;
  the first call appends the sentence ({(0,0),(0,1),(1,0)}, 1); after the second call
  (1,1) and (0,1) are known safe and no mine is known.
\<close>

theorem scenario_2x2:
  "nearby_mines \<lparr>ms_height = 2, ms_width = 2, board = [[True, False], [False, False]]\<rparr> (1, 1) = 1
   \<and> nearby_mines \<lparr>ms_height = 2, ms_width = 2, board = [[True, False], [False, False]]\<rparr> (0, 1) = 1
   \<and> knowledge (add_sentence (1, 1) 1 (MinesweeperAI 2 2)) = [Sentence {(0, 0), (0, 1), (1, 0)} 1]
   \<and> add_knowledge (1, 1) 1 (MinesweeperAI 2 2) =
        Some \<lparr>height = 2, width = 2, moves_made = {(1, 1)}, mines = {}, safes = {(1, 1)},
              knowledge = [Sentence {(0, 0), (0, 1), (1, 0)} 1]\<rparr>
   \<and> add_knowledge (0, 1) 1
        \<lparr>height = 2, width = 2, moves_made = {(1, 1)}, mines = {}, safes = {(1, 1)},
         knowledge = [Sentence {(0, 0), (0, 1), (1, 0)} 1]\<rparr> =
        Some \<lparr>height = 2, width = 2, moves_made = {(0, 1), (1, 1)}, mines = {},
              safes = {(0, 1), (1, 1)},
              knowledge = [Sentence {(0, 0), (1, 0)} 1, Sentence {(0, 0), (1, 0)} 1]\<rparr>"
  by code_simp


text \<open>
  C2. The claim says that a fixpoint is reached when \<open>add_knowledge\<close> returns. The loop
  is left as soon as the scan of the knowledge finds nothing, before the subset method is
  tried. On the 2 by 3 board with its one mine at (1,0), after (0,0) and (0,1) are
  revealed with their counts 1 and 1, the call returns with the sentences
  ({(1,0),(1,1)}, 1) and ({(0,2),(1,0),(1,1),(1,2)}, 1); the subset method on them gives
  ({(0,2),(1,2)}, 0), and the scan of it marks the new safe cells (0,2) and (1,2).
\<close>

theorem fixpoint_missed:
  "nearby_mines \<lparr>ms_height = 2, ms_width = 3, board = [[False, False, False], [True, False, False]]\<rparr> (0, 0) = 1
   \<and> nearby_mines \<lparr>ms_height = 2, ms_width = 3, board = [[False, False, False], [True, False, False]]\<rparr> (0, 1) = 1
   \<and> add_knowledge (0, 0) 1 (MinesweeperAI 2 3) =
        Some \<lparr>height = 2, width = 3, moves_made = {(0, 0)}, mines = {}, safes = {(0, 0)},
              knowledge = [Sentence {(0, 1), (1, 0), (1, 1)} 1]\<rparr>
   \<and> add_knowledge (0, 1) 1
        \<lparr>height = 2, width = 3, moves_made = {(0, 0)}, mines = {}, safes = {(0, 0)},
         knowledge = [Sentence {(0, 1), (1, 0), (1, 1)} 1]\<rparr> =
        Some \<lparr>height = 2, width = 3, moves_made = {(0, 0), (0, 1)}, mines = {},
              safes = {(0, 0), (0, 1)},
              knowledge = [Sentence {(1, 0), (1, 1)} 1,
                           Sentence {(0, 2), (1, 0), (1, 1), (1, 2)} 1]\<rparr>
   \<and> new_sentences [Sentence {(1, 0), (1, 1)} 1, Sentence {(0, 2), (1, 0), (1, 1), (1, 2)} 1]
        = [Sentence {(0, 2), (1, 2)} 0]
   \<and> update_knowledge [Sentence {(0, 2), (1, 2)} 0]
        \<lparr>height = 2, width = 3, moves_made = {(0, 0), (0, 1)}, mines = {},
         safes = {(0, 0), (0, 1)},
         knowledge = [Sentence {(1, 0), (1, 1)} 1,
                      Sentence {(0, 2), (1, 0), (1, 1), (1, 2)} 1,
                      Sentence {(0, 2), (1, 2)} 0]\<rparr> =
        (True,
         \<lparr>height = 2, width = 3, moves_made = {(0, 0), (0, 1)}, mines = {},
          safes = {(0, 0), (0, 1), (0, 2), (1, 2)},
          knowledge = [Sentence {(1, 0), (1, 1)} 1,
                       Sentence {(1, 0), (1, 1)} 1,
                       Sentence {} 0]\<rparr>)"
  by code_simp


text \<open>
  C3. The claim says that no cell of an inserted sentence is a known mine or a known safe
  cell. The sentence of step 3 leaves out the moves made only. On the 1 by 3 board
  without mines, revealing (0,0) with count 0 makes (0,1) a known safe cell; revealing
  (0,2) with count 0 then appends the sentence ({(0,1)}, 0), which holds that cell.
\<close>

theorem determined_cell_inserted:
  "nearby_mines \<lparr>ms_height = 1, ms_width = 3, board = [[False, False, False]]\<rparr> (0, 0) = 0
   \<and> nearby_mines \<lparr>ms_height = 1, ms_width = 3, board = [[False, False, False]]\<rparr> (0, 2) = 0
   \<and> add_knowledge (0, 0) 0 (MinesweeperAI 1 3) =
        Some \<lparr>height = 1, width = 3, moves_made = {(0, 0)}, mines = {},
              safes = {(0, 0), (0, 1)}, knowledge = [Sentence {} 0]\<rparr>
   \<and> knowledge (add_sentence (0, 2) 0
        \<lparr>height = 1, width = 3, moves_made = {(0, 0)}, mines = {},
         safes = {(0, 0), (0, 1)}, knowledge = [Sentence {} 0]\<rparr>) =
        [Sentence {} 0, Sentence {(0, 1)} 0]
   \<and> (0, 1) \<in> safes \<lparr>height = 1, width = 3, moves_made = {(0, 0)}, mines = {},
         safes = {(0, 0), (0, 1)}, knowledge = [Sentence {} 0]\<rparr>"
  by code_simp

section \<open>Further properties\<close>

text \<open>
  X1. The order in which \<open>update_knowledge\<close> goes through the set of mines, and through
  the set of safe cells, to mark them does not matter: two lists with the same members
  give the same knowledge base.
\<close>

theorem marking_order_irrelevant:
  assumes "set xs = set ys"
  shows "fold mark_mine xs a = fold mark_mine ys a \<and> fold mark_safe xs a = fold mark_safe ys a"
proof -
  have "fold sentence_mark_mine xs = fold sentence_mark_mine ys"
    by (rule ext) (simp add: fold_sentence_mark_mine assms)
  moreover have "fold sentence_mark_safe xs = fold sentence_mark_safe ys"
    by (rule ext) (simp add: fold_sentence_mark_safe assms)
  ultimately show ?thesis
    by (simp add: fold_mark_mine fold_mark_safe assms)
qed

theorem marking_order_irrelevant_witness:
  "set [(0, 0), (0, 1)] = set [(0, 1), (0, 0) :: cell]
   \<and> fold mark_mine [(0, 0), (0, 1)] (MinesweeperAI 1 3\<lparr>knowledge := [Sentence {(0, 0), (0, 1), (0, 2)} 2]\<rparr>)
     = fold mark_mine [(0, 1), (0, 0)] (MinesweeperAI 1 3\<lparr>knowledge := [Sentence {(0, 0), (0, 1), (0, 2)} 2]\<rparr>)
   \<and> fold mark_safe [(0, 0), (0, 1)] (MinesweeperAI 1 3\<lparr>knowledge := [Sentence {(0, 0), (0, 1), (0, 2)} 2]\<rparr>)
     = fold mark_safe [(0, 1), (0, 0)] (MinesweeperAI 1 3\<lparr>knowledge := [Sentence {(0, 0), (0, 1), (0, 2)} 2]\<rparr>)"
proof -
  have e: "set [(0, 0), (0, 1)] = set [(0, 1), (0, 0) :: cell]"
    by auto
  from e marking_order_irrelevant [OF e] show ?thesis
    by (rule conjI)
qed

text \<open>
  X2. The inference is sound. On a board \<open>g\<close>, after the cells \<open>cs\<close>, none of them a mine,
  have been revealed with the counts \<open>nearby_mines\<close> gives, every sentence states the
  number of mines among its cells, every known mine is a mine of the board and no known
  safe cell is one.
\<close>

theorem inference_sound:
  assumes "\<forall>c \<in> set cs. \<not> mine_at g c"
  shows "\<exists>a. play g cs (MinesweeperAI (ms_height g) (ms_width g)) = Some a
           \<and> list_all (sound_sentence g) (knowledge a)
           \<and> mines a \<subseteq> Collect (mine_at g) \<and> safes a \<inter> Collect (mine_at g) = {}"
proof -
  from play_sound [OF sound_init assms] obtain a where
    "play g cs (MinesweeperAI (ms_height g) (ms_width g)) = Some a" and "sound g a"
    by blast
  then show ?thesis
    by (auto simp add: sound_def)
qed

theorem inference_sound_witness:
  "\<not> mine_at \<lparr>ms_height = 1, ms_width = 2, board = [[True, False]]\<rparr> (0, 1)
   \<and> (\<exists>a. play \<lparr>ms_height = 1, ms_width = 2, board = [[True, False]]\<rparr> [(0, 1)] (MinesweeperAI 1 2)
            = Some a
          \<and> list_all (sound_sentence \<lparr>ms_height = 1, ms_width = 2, board = [[True, False]]\<rparr>)
               (knowledge a)
          \<and> mines a \<subseteq> Collect (mine_at \<lparr>ms_height = 1, ms_width = 2, board = [[True, False]]\<rparr>)
          \<and> safes a \<inter> Collect (mine_at \<lparr>ms_height = 1, ms_width = 2, board = [[True, False]]\<rparr>) = {})"
proof -
  let ?g = "\<lparr>ms_height = 1, ms_width = 2, board = [[True, False]]\<rparr>"
  have m: "\<not> mine_at ?g (0, 1)"
    by (simp add: mine_at_def board_at_def)
  then have "\<forall>c \<in> set [(0, 1)]. \<not> mine_at ?g c"
    by simp
  from inference_sound [OF this] m show ?thesis
    by simp
qed

text \<open>
  X3. \<open>MinesweeperAI.mark_mine\<close> and \<open>MinesweeperAI.mark_safe\<close> record the cell and take
  it out of every sentence of the knowledge.
\<close>

theorem mark_removes_cell:
  "list_all (\<lambda>s. c \<notin> cells s) (knowledge (mark_mine c a))
   \<and> list_all (\<lambda>s. c \<notin> cells s) (knowledge (mark_safe c a))
   \<and> c \<in> mines (mark_mine c a) \<and> c \<in> safes (mark_safe c a)"
  by (auto simp add: list_all_iff mark_mine_def mark_safe_def
      sentence_mark_mine_def sentence_mark_safe_def)

text \<open>
  X4. Step 3 of \<open>add_knowledge\<close> appends one sentence, over the neighbours on the board
  that are neither the cell nor a move made; so no cell of it is a move made.
\<close>

theorem new_sentence_unclicked:
  "knowledge (add_sentence c n a) =
     map (sentence_mark_safe c) (knowledge a)
       @ [Sentence (adjacent_cells a c - {c} - insert c (moves_made a)) n]
   \<and> cells (last (knowledge (add_sentence c n a))) \<inter> moves_made (add_sentence c n a) = {}
   \<and> c \<notin> cells (last (knowledge (add_sentence c n a)))"
  by (auto simp add: add_sentence_def Let_def Sentence_def adjacent_cells_def)

end
